theory Spec2Isabelle
  imports Main "HOL-Library.Product_Lexorder"
begin

section \<open>The Copilot worker: approval gate, idle timer and turn outcome\<close>

text \<open>
  Source: \<^verbatim>\<open>src/orchestration/worker/copilot-worker.ts\<close>, class \<^verbatim>\<open>CopilotWorker\<close>.
  The string-literal types of the TypeScript code (permission kinds, error codes,
  SDK result kinds, message statuses) are kept as strings, so every comparison of the
  source is a comparison of the model.
\<close>

subsection \<open>Numbers in template strings\<close>

text \<open>
  \<^verbatim>\<open>`${n}`\<close> for a non-negative integer \<open>n\<close> is its decimal numeral.
  JavaScript numbers are exact on integers below \<open>2^53\<close>; the counters of this code start
  at zero and gain one per call, so they are modelled as unbounded naturals.
\<close>

definition digit :: "nat \<Rightarrow> char" where
  "digit d = char_of (48 + d)"

fun show_nat :: "nat \<Rightarrow> string" where
  "show_nat n = (if n < 10 then [digit n] else show_nat (n div 10) @ [digit (n mod 10)])"

definition digit_value :: "char \<Rightarrow> nat" where
  "digit_value c = of_char c - 48"

definition read_nat :: "string \<Rightarrow> nat" where
  "read_nat s = foldl (\<lambda>acc c. 10 * acc + digit_value c) 0 s"

subsection \<open>mapPermissionKind\<close>

text \<open>The \<^verbatim>\<open>switch\<close> of lines 477-497, one branch per group of case labels.\<close>

definition mapPermissionKind :: "string \<Rightarrow> string" where
  "mapPermissionKind kind =
     (if kind = ''shell'' \<or> kind = ''command'' then ''shell''
      else if kind = ''write'' \<or> kind = ''file-write'' \<or> kind = ''create-directory'' then ''write''
      else if kind = ''read'' \<or> kind = ''file-read'' then ''read''
      else if kind = ''mcp'' then ''mcp''
      else if kind = ''url'' \<or> kind = ''fetch'' then ''url''
      else ''write'')"

text \<open>The case labels of that switch: the kind strings the worker recognises.\<close>

definition recognisedKinds :: "string set" where
  "recognisedKinds =
     {''shell'', ''command'', ''write'', ''file-write'', ''create-directory'',
      ''read'', ''file-read'', ''mcp'', ''url'', ''fetch''}"

definition permissionKinds :: "string set" where
  "permissionKinds = {''shell'', ''write'', ''read'', ''mcp'', ''url''}"

subsection \<open>Worker state\<close>

record ApprovalResponse =
  approved :: bool
  budget :: int

text \<open>
  The events handed to \<^verbatim>\<open>onStream\<close>. Of \<^verbatim>\<open>approval_required\<close> the free-form
  \<^verbatim>\<open>parameters\<close> object is left out, of \<^verbatim>\<open>complete\<close> the token usage, of
  \<^verbatim>\<open>agent_activity\<close> everything but the activity text.
\<close>

datatype stream_event =
    Start string string
  | Token string string string
  | AgentActivity string string string
  | ApprovalRequired (ev_traceId: string) (ev_agentId: string) (ev_toolName: string)
      (ev_approvalId: string) (ev_permissionKind: string)
  | Complete string string string
  | ErrorEvent (err_agentId: string) (err_traceId: string) (err_code: string)
      (err_message: string) (err_recoverable: bool)

text \<open>What \<^verbatim>\<open>execute\<close> settles with: the returned content, or the code and message of the
  error caught by its \<^verbatim>\<open>catch\<close> block (the rethrown error wraps that message with the
  latency, which is not modelled).\<close>

datatype turn_outcome = Resolved string | Rejected string string

text \<open>A thrown value: an \<^verbatim>\<open>OrchestrationError\<close> with its code and message, another
  \<^verbatim>\<open>Error\<close> with its message, or a value that is no \<^verbatim>\<open>Error\<close>, with what
  \<^verbatim>\<open>String(err)\<close> makes of it.\<close>

datatype thrown = OrchestrationError string string | PlainError string | NonError string

text \<open>What \<^verbatim>\<open>onPermissionRequest\<close> returns: a result kind at once, or a promise that is
  settled later by the resolver stored under the approval id.\<close>

datatype permission_reply = Now string | Suspended string

text \<open>
  The fields of the class that the approval gate and the timer use, the variables of the
  closure of the running \<^verbatim>\<open>execute\<close> call (\<open>timeoutBudget\<close>, \<open>timer\<close>, \<open>resolved\<close>,
  \<open>fullContent\<close>), and three logs of what the worker has done: the events given to
  \<^verbatim>\<open>onStream\<close>, the permission promises settled by resolvers (approval id and result
  kind), and the outcomes of the \<^verbatim>\<open>execute\<close> calls.

  \<open>pendingApprovals\<close> is the key list of the \<^verbatim>\<open>Map\<close> in insertion order; each resolver
  stored there settles the promise of its own approval id. \<open>timer\<close> is the time left on
  the armed \<^verbatim>\<open>setTimeout\<close>, \<open>None\<close> when it is cleared or has fired. \<open>agentId\<close> and
  \<open>toolsEnabled\<close> are the values captured by the session's \<^verbatim>\<open>onPermissionRequest\<close>
  closure. Before the first \<^verbatim>\<open>execute\<close> no handler is subscribed, which is \<open>resolved\<close>
  being true.
\<close>

record worker =
  agentId :: string
  toolsEnabled :: bool
  autoApproveBudget :: int
  pendingApprovals :: "string list"
  approvalCounter :: nat
  currentOnStream :: bool
  currentTraceId :: "string option"
  resetIdleTimeout :: bool
  timeoutBudget :: nat
  timer :: "nat option"
  resolved :: bool
  fullContent :: string
  emitted :: "stream_event list"
  settledPermissions :: "(string \<times> string) list"
  outcomes :: "turn_outcome list"

definition newWorker :: "string \<Rightarrow> bool \<Rightarrow> worker" where
  "newWorker a tools =
     \<lparr> agentId = a, toolsEnabled = tools, autoApproveBudget = 0, pendingApprovals = [],
       approvalCounter = 0, currentOnStream = False, currentTraceId = None,
       resetIdleTimeout = False, timeoutBudget = 0, timer = None, resolved = True,
       fullContent = [], emitted = [], settledPermissions = [], outcomes = [] \<rparr>"

subsection \<open>The pending-approvals map\<close>

definition map_set :: "string list \<Rightarrow> string \<Rightarrow> string list" where
  "map_set ks k = (if k \<in> set ks then ks else ks @ [k])"

definition map_delete :: "string list \<Rightarrow> string \<Rightarrow> string list" where
  "map_delete ks k = removeAll k ks"

text \<open>The resolver closure of lines 908-914: the result kind it settles its promise with.\<close>

definition resolverResult :: "ApprovalResponse \<Rightarrow> string" where
  "resolverResult r = (if approved r then ''approved'' else ''denied-interactively-by-user'')"

subsection \<open>onPermissionRequest\<close>

definition approvalIdOf :: "string \<Rightarrow> nat \<Rightarrow> string" where
  "approvalIdOf a n = a @ ''-perm-'' @ show_nat n"

text \<open>A request is its \<^verbatim>\<open>kind\<close> and its optional \<^verbatim>\<open>toolName\<close>.\<close>

definition onPermissionRequest ::
  "worker \<Rightarrow> string \<times> string option \<Rightarrow> worker \<times> permission_reply" where
  "onPermissionRequest w request =
     (let permKind = mapPermissionKind (fst request) in
      if permKind = ''read'' then (w, Now ''approved'')
      else if \<not> toolsEnabled w then (w, Now ''denied-by-rules'')
      else if autoApproveBudget w \<noteq> 0 then
        ((if autoApproveBudget w > 0
          then w\<lparr>autoApproveBudget := autoApproveBudget w - 1\<rparr> else w),
         Now ''approved'')
      else
        (let n = approvalCounter w + 1;
             approvalId = approvalIdOf (agentId w) n;
             w1 = w\<lparr>approvalCounter := n\<rparr>
         in if \<not> currentOnStream w then (w1, Now ''denied-by-rules'')
            else
              (w1\<lparr>emitted := emitted w @
                     [ApprovalRequired (case currentTraceId w of None \<Rightarrow> [] | Some t \<Rightarrow> t)
                        (agentId w)
                        (case snd request of None \<Rightarrow> fst request | Some t \<Rightarrow> t)
                        approvalId permKind],
                   pendingApprovals := map_set (pendingApprovals w) approvalId\<rparr>,
               Suspended approvalId)))"

subsection \<open>The idle timer\<close>

text \<open>\<^verbatim>\<open>resetTimeout\<close> (lines 122-141): clear the timer, publish the function on the
  object, arm the timer with the whole budget.\<close>

definition resetTimeout :: "worker \<Rightarrow> worker" where
  "resetTimeout w = w\<lparr>resetIdleTimeout := True, timer := Some (timeoutBudget w)\<rparr>"

subsection \<open>resolveApproval and clearPendingApprovals\<close>

definition resolveApproval :: "worker \<Rightarrow> string \<Rightarrow> ApprovalResponse \<Rightarrow> worker" where
  "resolveApproval w approvalId response =
     (if approvalId \<notin> set (pendingApprovals w) then w
      else
        (let w1 = w\<lparr>pendingApprovals := map_delete (pendingApprovals w) approvalId\<rparr>;
             w2 = (if resetIdleTimeout w1 then resetTimeout w1 else w1);
             w3 = (if approved response \<and> budget response \<noteq> 1
                   then w2\<lparr>autoApproveBudget :=
                          (if budget response = - 1 then - 1 else max 0 (budget response - 1))\<rparr>
                   else w2)
         in w3\<lparr>settledPermissions :=
                 settledPermissions w3 @ [(approvalId, resolverResult response)]\<rparr>))"

definition clearPendingApprovals :: "worker \<Rightarrow> worker" where
  "clearPendingApprovals w =
     w\<lparr>settledPermissions := settledPermissions w @
          map (\<lambda>k. (k, resolverResult \<lparr>approved = False, budget = 0\<rparr>)) (pendingApprovals w),
       pendingApprovals := []\<rparr>"

subsection \<open>How a turn ends\<close>

definition theTraceId :: "worker \<Rightarrow> string" where
  "theTraceId w = (case currentTraceId w of None \<Rightarrow> [] | Some t \<Rightarrow> t)"

definition errorCodeOf :: "thrown \<Rightarrow> string" where
  "errorCodeOf err =
     (case err of OrchestrationError c m \<Rightarrow> c | PlainError m \<Rightarrow> ''WORKER_EXECUTION''
      | NonError s \<Rightarrow> ''WORKER_EXECUTION'')"

definition errorMsgOf :: "thrown \<Rightarrow> string" where
  "errorMsgOf err =
     (case err of OrchestrationError c m \<Rightarrow> m | PlainError m \<Rightarrow> m
      | NonError s \<Rightarrow> ''Unknown Copilot worker error'')"

text \<open>The \<^verbatim>\<open>finally\<close> block of \<^verbatim>\<open>execute\<close> (lines 406-410).\<close>

definition finallyBlock :: "worker \<Rightarrow> worker" where
  "finallyBlock w =
     w\<lparr>currentOnStream := False, currentTraceId := None, resetIdleTimeout := False\<rparr>"

text \<open>The \<^verbatim>\<open>catch\<close> block (lines 379-405) followed by \<^verbatim>\<open>finally\<close>. It runs as the
  continuation of the rejected promise, before any other handler gets its turn.\<close>

definition catchBlock :: "worker \<Rightarrow> thrown \<Rightarrow> worker" where
  "catchBlock w err =
     (let w1 = clearPendingApprovals w;
          errorMsg = errorMsgOf err;
          errorCode = errorCodeOf err
      in finallyBlock
           (w1\<lparr>emitted := emitted w1 @
                  [ErrorEvent (agentId w1) (theTraceId w1) errorCode errorMsg
                     (errorCode \<noteq> ''CANCELLED'')],
               outcomes := outcomes w1 @ [Rejected errorCode errorMsg]\<rparr>))"

text \<open>The code after the awaited promise (lines 348-378) followed by \<^verbatim>\<open>finally\<close>: the
  continuation of \<^verbatim>\<open>resolve(fullContent)\<close>.\<close>

definition completeTurn :: "worker \<Rightarrow> worker" where
  "completeTurn w =
     finallyBlock
       (w\<lparr>emitted := emitted w @ [Complete (agentId w) (theTraceId w) (fullContent w)],
          outcomes := outcomes w @ [Resolved (fullContent w)]\<rparr>)"

subsection \<open>execute: start of a turn, session events, timer, abort\<close>

text \<open>
  The events of the SDK session that the handler of lines 169-336 tells apart. The
  \<^verbatim>\<open>tool.execution_*\<close> events only format an \<^verbatim>\<open>agent_activity\<close> text (absent for a
  hidden tool or an empty progress message); \<open>ToolEvent\<close> carries that text.
  \<^verbatim>\<open>assistant.usage\<close> only counts tokens and is one of the other events here.
\<close>

datatype session_event =
    MessageDelta "string option"
  | AssistantMessage "string option"
  | SessionIdle
  | SessionError "string option"
  | ToolEvent "string option"
  | OtherEvent

text \<open>\<^verbatim>\<open>if (s)\<close> for a string that may be undefined: the string when it is defined and not
  empty.\<close>

definition truthy :: "string option \<Rightarrow> string option" where
  "truthy s = (case s of None \<Rightarrow> None | Some t \<Rightarrow> if t = [] then None else Some t)"

definition onSessionEvent :: "worker \<Rightarrow> session_event \<Rightarrow> worker" where
  "onSessionEvent w ev =
     (if resolved w then w
      else
        (let w1 = resetTimeout w in
         case ev of
           MessageDelta deltaContent \<Rightarrow>
             (case truthy deltaContent of
                None \<Rightarrow> w1
              | Some delta \<Rightarrow>
                  w1\<lparr>fullContent := fullContent w1 @ delta,
                     emitted := emitted w1 @ [Token (agentId w1) (theTraceId w1) delta]\<rparr>)
         | AssistantMessage c \<Rightarrow>
             (case truthy c of None \<Rightarrow> w1 | Some content \<Rightarrow> w1\<lparr>fullContent := content\<rparr>)
         | SessionIdle \<Rightarrow> completeTurn (w1\<lparr>timer := None, resolved := True\<rparr>)
         | SessionError message \<Rightarrow>
             (let w2 = w1\<lparr>timer := None, resolved := True\<rparr>;
                  errMsg = (case message of None \<Rightarrow> ''Unknown Copilot error'' | Some m \<Rightarrow> m)
              in if length (fullContent w2) > 0 then completeTurn w2
                 else catchBlock w2
                        (OrchestrationError ''WORKER_EXECUTION'' (''Copilot error: '' @ errMsg)))
         | ToolEvent activity \<Rightarrow>
             (case activity of None \<Rightarrow> w1
              | Some a \<Rightarrow> w1\<lparr>emitted := emitted w1 @
                                  [AgentActivity (theTraceId w1) (agentId w1) a]\<rparr>)
         | OtherEvent \<Rightarrow> w1))"

text \<open>The callback of \<^verbatim>\<open>setTimeout\<close> (lines 125-140) and the message of its error.\<close>

definition timeoutMessage :: "worker \<Rightarrow> string" where
  "timeoutMessage w =
     ''Copilot worker '' @ agentId w @ '' idle for '' @ show_nat (timeoutBudget w)
       @ ''ms with no activity''"

definition timerFired :: "worker \<Rightarrow> worker" where
  "timerFired w =
     (if resolved w then w
      else if length (pendingApprovals w) > 0 then resetTimeout w
      else catchBlock (w\<lparr>resolved := True\<rparr>) (OrchestrationError ''TIMEOUT'' (timeoutMessage w)))"

text \<open>\<open>d\<close> milliseconds pass in which nothing else happens: the armed timer runs down,
  and fires when its delay is used up (it is one-shot, so it is no longer armed when
  its callback runs).\<close>

definition silence :: "worker \<Rightarrow> nat \<Rightarrow> worker" where
  "silence w d =
     (case timer w of None \<Rightarrow> w
      | Some r \<Rightarrow> if d < r then w\<lparr>timer := Some (r - d)\<rparr> else timerFired (w\<lparr>timer := None\<rparr>))"

text \<open>The \<^verbatim>\<open>abort\<close> listener of the cancellation token (lines 146-158).\<close>

definition abort :: "worker \<Rightarrow> worker" where
  "abort w =
     (let w1 = w\<lparr>timer := None\<rparr> in
      if resolved w1 then w1
      else catchBlock (w1\<lparr>resolved := True\<rparr>)
             (OrchestrationError ''CANCELLED''
                (''Copilot worker '' @ agentId w @ '' was cancelled'')))"

text \<open>The rejection handler of \<^verbatim>\<open>session.send\<close> (lines 338-345).\<close>

definition sendFailed :: "worker \<Rightarrow> thrown \<Rightarrow> worker" where
  "sendFailed w err =
     (let w1 = w\<lparr>timer := None\<rparr> in
      if resolved w1 then w1
      else catchBlock (w1\<lparr>resolved := True\<rparr>)
             (case err of NonError s \<Rightarrow> PlainError s | e \<Rightarrow> e))"

text \<open>
  The start of \<^verbatim>\<open>execute\<close> (lines 87-142) with timeout budget \<open>T\<close> and trace id \<open>tid\<close>.
  \<open>sessionFailure\<close> is what \<^verbatim>\<open>getOrCreateSession\<close> throws, if it throws. The Turn
  Coordinator starts a turn for a worker only when its previous one has settled.
\<close>

definition execute :: "worker \<Rightarrow> nat \<Rightarrow> string \<Rightarrow> thrown option \<Rightarrow> worker" where
  "execute w T tid sessionFailure =
     (let w0 = w\<lparr>autoApproveBudget := 0, currentOnStream := True, currentTraceId := Some tid\<rparr> in
      case sessionFailure of
        Some err \<Rightarrow> catchBlock w0 err
      | None \<Rightarrow>
          resetTimeout
            (w0\<lparr>emitted := emitted w0 @ [Start (agentId w0) tid],
                fullContent := [], resolved := False, timeoutBudget := T\<rparr>))"

subsection \<open>Runs of a worker\<close>

datatype input =
    Execute nat string "thrown option"
  | SessionEvent session_event
  | Silence nat
  | Abort
  | SendFailed thrown
  | PermissionRequest string "string option"
  | ResolveApproval string ApprovalResponse

fun step :: "worker \<Rightarrow> input \<Rightarrow> worker \<times> permission_reply list" where
  "step w (Execute T tid f) = (execute w T tid f, [])"
| "step w (SessionEvent ev) = (onSessionEvent w ev, [])"
| "step w (Silence d) = (silence w d, [])"
| "step w Abort = (abort w, [])"
| "step w (SendFailed err) = (sendFailed w err, [])"
| "step w (PermissionRequest kind tool) =
     (let (w', reply) = onPermissionRequest w (kind, tool) in (w', [reply]))"
| "step w (ResolveApproval approvalId response) = (resolveApproval w approvalId response, [])"

text \<open>A run returns the final worker and the replies to its permission requests, in order.\<close>

fun run :: "worker \<Rightarrow> input list \<Rightarrow> worker \<times> permission_reply list" where
  "run w [] = (w, [])"
| "run w (i # is) =
     (let (w1, r1) = step w i; (w2, r2) = run w1 is in (w2, r1 @ r2))"




fun isApprovalRequired :: "stream_event \<Rightarrow> bool" where
  "isApprovalRequired (ApprovalRequired t a tool aid k) = True"
| "isApprovalRequired e = False"

definition approvalIds :: "stream_event list \<Rightarrow> string list" where
  "approvalIds evs = map ev_approvalId (filter isApprovalRequired evs)"


text \<open>What every operation but a prompting permission request leaves alone: the captured
  profile, the counter and the \<^verbatim>\<open>approval_required\<close> events emitted so far.\<close>

definition idFrame :: "worker \<Rightarrow> worker \<Rightarrow> bool" where
  "idFrame w w' \<longleftrightarrow>
     agentId w' = agentId w \<and> toolsEnabled w' = toolsEnabled w \<and>
     approvalCounter w' = approvalCounter w \<and>
     filter isApprovalRequired (emitted w') = filter isApprovalRequired (emitted w)"

text \<open>Every approval id emitted so far was built from a counter value already used.\<close>

definition idsInv :: "worker \<Rightarrow> bool" where
  "idsInv w \<longleftrightarrow>
     distinct (approvalIds (emitted w)) \<and>
     (\<forall>a \<in> set (approvalIds (emitted w)).
        \<exists>n. n \<le> approvalCounter w \<and> a = approvalIdOf (agentId w) n)"

text \<open>A worker in the middle of a turn, and the same worker after a shell permission
  request has made it prompt.\<close>

definition startedWorker :: worker where
  "startedWorker = execute (newWorker ''agent-1'' True) 30000 ''trace-1'' None"

definition promptedWorker :: worker where
  "promptedWorker = fst (onPermissionRequest startedWorker (''shell'', Some ''bash''))"

section \<open>The chat view: promotion to the static log and plan approval\<close>

text \<open>
  Source: the \<^verbatim>\<open>ChatApp\<close> component (\<^verbatim>\<open>src/unnamed/part_000\<close>). The types \<^verbatim>\<open>Message\<close>,
  \<^verbatim>\<open>StaticEntry\<close> and the plan types are declared outside the files at hand; the model
  keeps the fields the component reads and takes the plan and the orchestrator's
  analysis as type parameters. A timestamp is the number \<^verbatim>\<open>new Date(t).getTime()\<close>.
\<close>

record Message =
  message_id :: string
  senderId :: string
  content :: string
  status :: string
  timestamp :: int

datatype 'plan StaticEntry =
    MessageEntry (entry_id: string) Message
  | PlanEntry (entry_id: string) 'plan bool

datatype OrchestratorMessage = OrchestratorMessage (om_kind: string) (om_content: string) (om_time: nat)

datatype 'plan PlanProgress =
  PlanProgress (progress_plan: 'plan) (completed: nat) (activeAgent: "string option")

record ('plan, 'analysis) PendingPlanApproval =
  plan :: 'plan
  originalMessage :: string
  analysis :: 'analysis

text \<open>A call \<^verbatim>\<open>sendMessage(content, directedTo, flag, analysis)\<close> of the stream processor.\<close>

datatype 'analysis SendMessage =
  SendMessage (sent_content: string) (sent_directedTo: "string list option") (sent_flag: bool)
    (sent_analysis: 'analysis)

text \<open>
  The state the two handlers work on: the ref \<open>staticIds\<close>, the React state
  \<open>staticEntries\<close>, and of the stream processor the pending plan approval, the
  orchestrator's message log, the plan progress and the calls of \<^verbatim>\<open>sendMessage\<close>.
\<close>

record ('plan, 'analysis) chat =
  staticIds :: "string set"
  staticEntries :: "'plan StaticEntry list"
  pendingPlanApproval :: "('plan, 'analysis) PendingPlanApproval option"
  orchestratorMessages :: "OrchestratorMessage list"
  planProgress :: "'plan PlanProgress option"
  sentMessages :: "'analysis SendMessage list"

subsection \<open>The promotion effect (lines 111-139)\<close>

text \<open>\<^verbatim>\<open>Array.prototype.indexOf\<close>: the first index of the element, \<open>-1\<close> when absent.\<close>

fun indexOf :: "'a list \<Rightarrow> 'a \<Rightarrow> int" where
  "indexOf [] x = - 1"
| "indexOf (y # ys) x =
     (if y = x then 0 else (let i = indexOf ys x in if i = - 1 then - 1 else i + 1))"

text \<open>The comparator handed to \<^verbatim>\<open>sort\<close> (lines 124-133).\<close>

definition compareMessages :: "string list \<Rightarrow> Message \<Rightarrow> Message \<Rightarrow> int" where
  "compareMessages streamingOrder a b =
     (let orderA = indexOf streamingOrder (senderId a);
          orderB = indexOf streamingOrder (senderId b)
      in if orderA = - 1 \<and> orderB = - 1 then timestamp a - timestamp b
         else if orderA = - 1 then - 1
         else if orderB = - 1 then 1
         else orderA - orderB)"

text \<open>
  \<^verbatim>\<open>Array.prototype.sort\<close> is stable: elements that compare equal keep their order. For a
  comparator that is a consistent ordering, as this one is on numeric timestamps, that
  fixes the result, which is the one of the stable insertion sort.
\<close>

fun insertSorted :: "('a \<Rightarrow> 'a \<Rightarrow> int) \<Rightarrow> 'a \<Rightarrow> 'a list \<Rightarrow> 'a list" where
  "insertSorted cmp x [] = [x]"
| "insertSorted cmp x (y # ys) =
     (if cmp x y \<le> 0 then x # y # ys else y # insertSorted cmp x ys)"

definition arraySort :: "('a \<Rightarrow> 'a \<Rightarrow> int) \<Rightarrow> 'a list \<Rightarrow> 'a list" where
  "arraySort cmp xs = foldr (insertSorted cmp) xs []"

definition isComplete :: "Message \<Rightarrow> bool" where
  "isComplete message \<longleftrightarrow>
     status message = ''complete'' \<or> status message = ''sent'' \<or> status message = ''error''"

text \<open>The \<^verbatim>\<open>for\<close> loop of lines 113-122: the ids promoted so far, updated as the loop
  goes, and the messages it pushes to \<^verbatim>\<open>newlyCompleted\<close>.\<close>

fun collectCompleted ::
  "string set \<Rightarrow> string set \<Rightarrow> Message list \<Rightarrow> string set \<times> Message list" where
  "collectCompleted ids streamingMessageIds [] = (ids, [])"
| "collectCompleted ids streamingMessageIds (message # messages) =
     (if message_id message \<in> ids then collectCompleted ids streamingMessageIds messages
      else if message_id message \<in> streamingMessageIds
        then collectCompleted ids streamingMessageIds messages
      else if isComplete message then
        (let (ids', rest) =
               collectCompleted (insert (message_id message) ids) streamingMessageIds messages
         in (ids', message # rest))
      else collectCompleted ids streamingMessageIds messages)"

definition messageEntry :: "Message \<Rightarrow> 'plan StaticEntry" where
  "messageEntry m = MessageEntry (message_id m) m"

definition promoteCompleted ::
  "string set \<Rightarrow> string list \<Rightarrow> Message list \<Rightarrow> ('plan, 'analysis) chat \<Rightarrow> ('plan, 'analysis) chat" where
  "promoteCompleted streamingMessageIds streamingOrder messages st =
     (let (ids, newlyCompleted) = collectCompleted (staticIds st) streamingMessageIds messages;
          st1 = st\<lparr>staticIds := ids\<rparr>
      in if length newlyCompleted > 0
         then st1\<lparr>staticEntries := staticEntries st1 @
                    map messageEntry (arraySort (compareMessages streamingOrder) newlyCompleted)\<rparr>
         else st1)"

text \<open>Several runs of the effect, each with its own stream refs and message list.\<close>

fun promoteAll ::
  "(string set \<times> string list \<times> Message list) list \<Rightarrow> ('plan, 'analysis) chat \<Rightarrow> ('plan, 'analysis) chat" where
  "promoteAll [] st = st"
| "promoteAll ((sids, ord, msgs) # scans) st = promoteAll scans (promoteCompleted sids ord msgs st)"

text \<open>The messages of the message entries of a log, in order.\<close>

fun entryMessages :: "'plan StaticEntry list \<Rightarrow> Message list" where
  "entryMessages [] = []"
| "entryMessages (MessageEntry i m # es) = m # entryMessages es"
| "entryMessages (PlanEntry i p a # es) = entryMessages es"

text \<open>
  The order the specification words: by the sender's position in the dispatch order, ties
  broken by ascending timestamp.
\<close>

definition spec_dispatch_order :: "string list \<Rightarrow> Message \<Rightarrow> Message \<Rightarrow> bool" where
  "spec_dispatch_order streamingOrder a b \<longleftrightarrow>
     indexOf streamingOrder (senderId a) < indexOf streamingOrder (senderId b) \<or>
     indexOf streamingOrder (senderId a) = indexOf streamingOrder (senderId b) \<and>
       timestamp a \<le> timestamp b"

text \<open>
  The order the comparator stands for, as a sort key under the lexicographic order of
  pairs: senders outside the dispatch order first, by timestamp; then the others by
  position.
\<close>

definition promotionKey :: "string list \<Rightarrow> Message \<Rightarrow> int \<times> int" where
  "promotionKey streamingOrder m =
     (let i = indexOf streamingOrder (senderId m)
      in if i = - 1 then (0, timestamp m) else (1, i))"

subsection \<open>The plan-approval input handler (lines 222-255)\<close>

text \<open>\<^verbatim>\<open>toLowerCase\<close> on the ASCII letters.\<close>

definition toLowerCase :: "string \<Rightarrow> string" where
  "toLowerCase s =
     map (\<lambda>c. if 65 \<le> (of_char c :: nat) \<and> (of_char c :: nat) \<le> 90
              then char_of ((of_char c :: nat) + 32) else c) s"

text \<open>
  \<open>now\<close> is the clock read by \<^verbatim>\<open>Date.now()\<close> and \<^verbatim>\<open>new Date()\<close>. The handler is
  active only while a plan approval is pending (\<^verbatim>\<open>isActive\<close>).
\<close>

definition onPlanApprovalInput ::
  "nat \<Rightarrow> string \<Rightarrow> ('plan, 'analysis) chat \<Rightarrow> ('plan, 'analysis) chat" where
  "onPlanApprovalInput now input st =
     (if pendingPlanApproval st = None then st
      else
        (let lower = toLowerCase input in
         if lower \<noteq> ''y'' \<and> lower \<noteq> ''n'' then st
         else
           (let approval = pendingPlanApproval st;
                approved = (lower = ''y'');
                st1 = (case approval of
                         None \<Rightarrow> st
                       | Some a \<Rightarrow>
                           st\<lparr>staticEntries := staticEntries st @
                                [PlanEntry (''plan-'' @ show_nat now) (plan a) approved]\<rparr>);
                st2 = st1\<lparr>pendingPlanApproval := None\<rparr>
            in if \<not> approved then
                 st2\<lparr>orchestratorMessages := orchestratorMessages st2 @
                        [OrchestratorMessage ''status'' ''Plan rejected by user.'' now],
                     planProgress := None\<rparr>
               else
                 (case approval of
                    None \<Rightarrow> st2
                  | Some a \<Rightarrow>
                      st2\<lparr>orchestratorMessages := orchestratorMessages st2 @
                             [OrchestratorMessage ''status'' ''Plan approved. Executing...'' now],
                          planProgress := Some (PlanProgress (plan a) 0 None),
                          sentMessages := sentMessages st2 @
                             [SendMessage (originalMessage a) None False (analysis a)]\<rparr>))))"

subsection \<open>Sample states of the chat view\<close>

text \<open>The state of a fresh component; three finished messages, two of one sender with the
  later timestamp first; a state with a plan awaiting the user's answer.\<close>

definition emptyChat :: "('plan, 'analysis) chat" where
  "emptyChat =
     \<lparr> staticIds = {}, staticEntries = [], pendingPlanApproval = None,
       orchestratorMessages = [], planProgress = None, sentMessages = [] \<rparr>"

definition lateMessage :: Message where
  "lateMessage = \<lparr> message_id = ''m1'', senderId = ''A'', content = ''first'',
                    status = ''complete'', timestamp = 2000 \<rparr>"

definition earlyMessage :: Message where
  "earlyMessage = \<lparr> message_id = ''m2'', senderId = ''A'', content = ''second'',
                     status = ''complete'', timestamp = 1000 \<rparr>"

definition otherMessage :: Message where
  "otherMessage = \<lparr> message_id = ''m3'', senderId = ''B'', content = ''third'',
                     status = ''error'', timestamp = 1500 \<rparr>"

definition awaitingPlan :: "(string list, string) chat" where
  "awaitingPlan =
     emptyChat\<lparr>pendingPlanApproval :=
       Some \<lparr> plan = [''research'', ''write''], originalMessage = ''draft the report'',
              analysis = ''two steps'' \<rparr>,
       planProgress := Some (PlanProgress [''old''] 1 (Some ''A''))\<rparr>"

section \<open>Facts about the worker model\<close>

declare show_nat.simps [simp del]

lemma digit_value_digit: "d < 10 \<Longrightarrow> digit_value (digit d) = d"
  by (simp add: digit_value_def digit_def)

lemma read_nat_snoc: "read_nat (s @ [c]) = 10 * read_nat s + digit_value c"
  by (simp add: read_nat_def)

lemma read_show_nat: "read_nat (show_nat n) = n"
proof (induction n rule: show_nat.induct)
  case (1 n)
  show ?case
  proof (cases "n < 10")
    case True
    then show ?thesis
      by (simp add: show_nat.simps [of n] read_nat_def digit_value_digit)
  next
    case False
    with 1 show ?thesis
      by (simp add: show_nat.simps [of n] read_nat_snoc digit_value_digit)
  qed
qed

lemma show_nat_inj: "show_nat n = show_nat m \<Longrightarrow> n = m"
  by (metis read_show_nat)

lemma approvalIdOf_inj: "approvalIdOf a n = approvalIdOf a m \<Longrightarrow> n = m"
  by (simp add: approvalIdOf_def show_nat_inj)



lemma idFrame_resetTimeout: "idFrame w (resetTimeout w)"
  by (simp add: idFrame_def resetTimeout_def)

lemma idFrame_catchBlock: "idFrame w (catchBlock w err)"
  by (simp add: idFrame_def catchBlock_def finallyBlock_def clearPendingApprovals_def Let_def)

lemma idFrame_completeTurn: "idFrame w (completeTurn w)"
  by (simp add: idFrame_def completeTurn_def finallyBlock_def)

lemma budget_catchBlock: "autoApproveBudget (catchBlock w err) = autoApproveBudget w"
  by (simp add: catchBlock_def finallyBlock_def clearPendingApprovals_def Let_def)

lemma budget_completeTurn: "autoApproveBudget (completeTurn w) = autoApproveBudget w"
  by (simp add: completeTurn_def finallyBlock_def)

lemma idFrame_onSessionEvent: "idFrame w (onSessionEvent w ev)"
  by (cases ev)
     (auto simp: onSessionEvent_def Let_def idFrame_def resetTimeout_def completeTurn_def
        catchBlock_def finallyBlock_def clearPendingApprovals_def split: option.splits)


lemma idFrame_timerFired: "idFrame w (timerFired w)"
  by (auto simp: timerFired_def Let_def idFrame_def resetTimeout_def
        catchBlock_def finallyBlock_def clearPendingApprovals_def)

lemma budget_timerFired: "autoApproveBudget (timerFired w) = autoApproveBudget w"
  by (auto simp: timerFired_def Let_def resetTimeout_def
        catchBlock_def finallyBlock_def clearPendingApprovals_def)

lemma idFrame_silence: "idFrame w (silence w d)"
  by (auto simp: silence_def timerFired_def Let_def idFrame_def resetTimeout_def
        catchBlock_def finallyBlock_def clearPendingApprovals_def split: option.splits)


lemma idFrame_abort: "idFrame w (abort w)"
  by (auto simp: abort_def Let_def idFrame_def
        catchBlock_def finallyBlock_def clearPendingApprovals_def)


lemma idFrame_sendFailed: "idFrame w (sendFailed w err)"
  by (auto simp: sendFailed_def Let_def idFrame_def
        catchBlock_def finallyBlock_def clearPendingApprovals_def)


lemma idFrame_execute: "idFrame w (execute w T tid f)"
  by (auto simp: execute_def Let_def idFrame_def resetTimeout_def
        catchBlock_def finallyBlock_def clearPendingApprovals_def split: option.splits)

lemma idFrame_resolveApproval: "idFrame w (resolveApproval w a r)"
  by (auto simp: resolveApproval_def Let_def idFrame_def resetTimeout_def)

lemma fst_run_Cons: "fst (run w (i # ins)) = fst (run (fst (step w i)) ins)"
  by (simp add: split_beta)

lemma snd_run_Cons: "snd (run w (i # ins)) = snd (step w i) @ snd (run (fst (step w i)) ins)"
  by (simp add: split_beta)

lemma step_request:
  "fst (step w (PermissionRequest kind tool)) = fst (onPermissionRequest w (kind, tool))"
  "snd (step w (PermissionRequest kind tool)) = [snd (onPermissionRequest w (kind, tool))]"
  by (simp_all add: split_beta)







lemma prompt_facts:
  assumes "onPermissionRequest w0 q = (w1, Suspended aid)"
  shows "toolsEnabled w1 \<and> autoApproveBudget w1 = 0 \<and> currentOnStream w1 \<and>
         aid \<in> set (pendingApprovals w1) \<and> mapPermissionKind (fst q) \<noteq> ''read'' \<and>
         approvalCounter w1 = approvalCounter w0 + 1 \<and>
         aid = approvalIdOf (agentId w0) (approvalCounter w0 + 1) \<and> agentId w1 = agentId w0 \<and>
         emitted w1 = emitted w0 @
           [ApprovalRequired (theTraceId w0) (agentId w0)
              (case snd q of None \<Rightarrow> fst q | Some t \<Rightarrow> t) aid (mapPermissionKind (fst q))]"
  using assms
  by (auto simp: onPermissionRequest_def Let_def map_set_def theTraceId_def split: if_splits)




lemma catchBlock_fields:
  "outcomes (catchBlock w err) = outcomes w @ [Rejected (errorCodeOf err) (errorMsgOf err)]"
  "emitted (catchBlock w err) = emitted w @
     [ErrorEvent (agentId w) (theTraceId w) (errorCodeOf err) (errorMsgOf err)
        (errorCodeOf err \<noteq> ''CANCELLED'')]"
  "pendingApprovals (catchBlock w err) = []"
  "settledPermissions (catchBlock w err) = settledPermissions w @
     map (\<lambda>a. (a, ''denied-interactively-by-user'')) (pendingApprovals w)"
  "resolved (catchBlock w err) = resolved w"
  "timer (catchBlock w err) = timer w"
  by (simp_all add: catchBlock_def finallyBlock_def clearPendingApprovals_def Let_def
        theTraceId_def resolverResult_def)

lemma completeTurn_fields:
  "outcomes (completeTurn w) = outcomes w @ [Resolved (fullContent w)]"
  "emitted (completeTurn w) = emitted w @ [Complete (agentId w) (theTraceId w) (fullContent w)]"
  "pendingApprovals (completeTurn w) = pendingApprovals w"
  "resolved (completeTurn w) = resolved w"
  by (simp_all add: completeTurn_def finallyBlock_def)

lemma outcomes_onSessionEvent:
  "outcomes (onSessionEvent w ev) = outcomes w \<or>
   (\<exists>c. outcomes (onSessionEvent w ev) = outcomes w @ [Resolved c]) \<or>
   (\<exists>w0 err. onSessionEvent w ev = catchBlock w0 err \<and> outcomes w0 = outcomes w \<and>
      emitted w0 = emitted w \<and> pendingApprovals w0 = pendingApprovals w \<and>
      settledPermissions w0 = settledPermissions w)"
proof (cases "resolved w")
  case True
  then show ?thesis by (simp add: onSessionEvent_def)
next
  case False
  show ?thesis
  proof (cases ev)
    case (SessionError m)
    show ?thesis
    proof (cases "fullContent w = []")
      case True
      with False SessionError have
        "onSessionEvent w ev = catchBlock ((resetTimeout w)\<lparr>timer := None, resolved := True\<rparr>)
           (OrchestrationError ''WORKER_EXECUTION''
             (''Copilot error: '' @ (case m of None \<Rightarrow> ''Unknown Copilot error'' | Some e \<Rightarrow> e)))"
        by (simp add: onSessionEvent_def Let_def resetTimeout_def)
      then show ?thesis
        by (intro disjI2 exI conjI, assumption) (simp_all add: resetTimeout_def)
    next
      case nonempty: False
      with False SessionError show ?thesis
        by (simp add: onSessionEvent_def Let_def resetTimeout_def completeTurn_fields)
    qed
  qed (use False in \<open>auto simp: onSessionEvent_def Let_def resetTimeout_def completeTurn_fields
         split: option.splits\<close>)
qed

lemma step_outcomes:
  "outcomes (fst (step w i)) = outcomes w \<or>
   (\<exists>c. outcomes (fst (step w i)) = outcomes w @ [Resolved c]) \<or>
   (\<exists>w0 err. fst (step w i) = catchBlock w0 err \<and> outcomes w0 = outcomes w \<and>
      emitted w0 = emitted w \<and> pendingApprovals w0 = pendingApprovals w \<and>
      settledPermissions w0 = settledPermissions w)"
proof (cases i)
  case (Execute T tid f)
  show ?thesis
  proof (cases f)
    case None
    with Execute show ?thesis by (simp add: execute_def Let_def resetTimeout_def)
  next
    case (Some err)
    with Execute have "fst (step w i) =
      catchBlock (w\<lparr>autoApproveBudget := 0, currentOnStream := True, currentTraceId := Some tid\<rparr>) err"
      by (simp add: execute_def Let_def)
    then show ?thesis
      by (intro disjI2 exI conjI, assumption) simp_all
  qed
next
  case (SessionEvent ev)
  with outcomes_onSessionEvent [of w ev] show ?thesis by simp
next
  case (Silence d)
  show ?thesis
  proof (cases "\<exists>r. timer w = Some r \<and> r \<le> d \<and> \<not> resolved w \<and> pendingApprovals w = []")
    case True
    with Silence have "fst (step w i) =
      catchBlock (w\<lparr>timer := None, resolved := True\<rparr>)
        (OrchestrationError ''TIMEOUT'' (timeoutMessage w))"
      by (auto simp: silence_def timerFired_def timeoutMessage_def)
    then show ?thesis
      by (intro disjI2 exI conjI, assumption) simp_all
  next
    case False
    with Silence show ?thesis
      by (auto simp: silence_def timerFired_def resetTimeout_def split: option.splits)
  qed
next
  case Abort
  show ?thesis
  proof (cases "resolved w")
    case True
    with Abort show ?thesis by (simp add: abort_def Let_def)
  next
    case False
    with Abort have "fst (step w i) =
      catchBlock (w\<lparr>timer := None, resolved := True\<rparr>)
        (OrchestrationError ''CANCELLED'' (''Copilot worker '' @ agentId w @ '' was cancelled''))"
      by (simp add: abort_def Let_def)
    then show ?thesis
      by (intro disjI2 exI conjI, assumption) simp_all
  qed
next
  case (SendFailed err)
  show ?thesis
  proof (cases "resolved w")
    case True
    with SendFailed show ?thesis by (simp add: sendFailed_def Let_def)
  next
    case False
    with SendFailed have "fst (step w i) =
      catchBlock (w\<lparr>timer := None, resolved := True\<rparr>)
        (case err of NonError s \<Rightarrow> PlainError s | e \<Rightarrow> e)"
      by (simp add: sendFailed_def Let_def)
    then show ?thesis
      by (intro disjI2 exI conjI, assumption) simp_all
  qed
next
  case (PermissionRequest kind tool)
  then show ?thesis
    by (simp add: step_request onPermissionRequest_def Let_def del: step.simps)
next
  case (ResolveApproval a r)
  then show ?thesis by (simp add: resolveApproval_def Let_def resetTimeout_def)
qed

lemma idsInv_frame: "idFrame w w' \<Longrightarrow> idsInv w \<Longrightarrow> idsInv w'"
  by (simp add: idFrame_def idsInv_def approvalIds_def)

lemma request_cases:
  "idFrame w (fst (onPermissionRequest w q)) \<or>
   (agentId (fst (onPermissionRequest w q)) = agentId w \<and>
    approvalCounter (fst (onPermissionRequest w q)) = approvalCounter w + 1 \<and>
    (emitted (fst (onPermissionRequest w q)) = emitted w \<or>
     (\<exists>t tool k. emitted (fst (onPermissionRequest w q)) = emitted w @
        [ApprovalRequired t (agentId w) tool (approvalIdOf (agentId w) (approvalCounter w + 1)) k])))"
  by (simp add: onPermissionRequest_def Let_def idFrame_def)

lemma idsInv_request: "idsInv w \<Longrightarrow> idsInv (fst (onPermissionRequest w q))"
proof -
  assume inv: "idsInv w"
  let ?w' = "fst (onPermissionRequest w q)"
  from request_cases [of w q] consider
      (frame) "idFrame w ?w'"
    | (count) "agentId ?w' = agentId w" "approvalCounter ?w' = approvalCounter w + 1"
        "emitted ?w' = emitted w"
    | (prompt) t tool k where "agentId ?w' = agentId w"
        "approvalCounter ?w' = approvalCounter w + 1"
        "emitted ?w' = emitted w @
          [ApprovalRequired t (agentId w) tool (approvalIdOf (agentId w) (approvalCounter w + 1)) k]"
    by blast
  then show ?thesis
  proof cases
    case frame
    from frame inv show ?thesis by (rule idsInv_frame)
  next
    case count
    with inv show ?thesis
      by (auto simp: idsInv_def intro: le_SucI)
  next
    case prompt
    have fresh: "approvalIdOf (agentId w) (approvalCounter w + 1) \<notin> set (approvalIds (emitted w))"
    proof
      assume "approvalIdOf (agentId w) (approvalCounter w + 1) \<in> set (approvalIds (emitted w))"
      with inv obtain n where "n \<le> approvalCounter w"
        "approvalIdOf (agentId w) (approvalCounter w + 1) = approvalIdOf (agentId w) n"
        by (auto simp: idsInv_def)
      then show False by (auto dest: approvalIdOf_inj)
    qed
    have old: "\<exists>n. n \<le> approvalCounter w + 1 \<and> a = approvalIdOf (agentId w) n"
      if "a \<in> set (approvalIds (emitted w))" for a
      using inv that by (auto simp: idsInv_def intro: le_SucI)
    from inv fresh old prompt show ?thesis
      by (auto simp: idsInv_def approvalIds_def)
  qed
qed

lemma idsInv_step: "idsInv w \<Longrightarrow> idsInv (fst (step w i))"
proof (cases i)
  case (PermissionRequest kind tool)
  assume "idsInv w"
  then show ?thesis
    by (simp add: PermissionRequest step_request idsInv_request del: step.simps)
qed (auto intro: idsInv_frame idFrame_execute idFrame_onSessionEvent idFrame_silence
       idFrame_abort idFrame_sendFailed idFrame_resolveApproval)

lemma idsInv_run: "idsInv w \<Longrightarrow> idsInv (fst (run w ins))"
proof (induction ins arbitrary: w)
  case Nil
  then show ?case by simp
next
  case (Cons i ins)
  then show ?case
    by (simp add: fst_run_Cons idsInv_step del: run.simps)
qed

lemma counter_step: "approvalCounter w \<le> approvalCounter (fst (step w i))"
proof (cases i)
  case (PermissionRequest kind tool)
  then show ?thesis
    by (simp add: step_request onPermissionRequest_def Let_def del: step.simps)
next
  case (Execute T tid f)
  with idFrame_execute [of w T tid f] show ?thesis by (simp add: idFrame_def)
next
  case (SessionEvent ev)
  with idFrame_onSessionEvent [of w ev] show ?thesis by (simp add: idFrame_def)
next
  case (Silence d)
  with idFrame_silence [of w d] show ?thesis by (simp add: idFrame_def)
next
  case Abort
  with idFrame_abort [of w] show ?thesis by (simp add: idFrame_def)
next
  case (SendFailed err)
  with idFrame_sendFailed [of w err] show ?thesis by (simp add: idFrame_def)
next
  case (ResolveApproval a r)
  with idFrame_resolveApproval [of w a r] show ?thesis by (simp add: idFrame_def)
qed

lemma show_nat_1: "show_nat (Suc 0) = ''1''"
  by code_simp


lemma startedWorker_eq:
  "startedWorker =
     \<lparr> agentId = ''agent-1'', toolsEnabled = True, autoApproveBudget = 0, pendingApprovals = [],
       approvalCounter = 0, currentOnStream = True, currentTraceId = Some ''trace-1'',
       resetIdleTimeout = True, timeoutBudget = 30000, timer = Some 30000, resolved = False,
       fullContent = [], emitted = [Start ''agent-1'' ''trace-1''], settledPermissions = [],
       outcomes = [] \<rparr>"
  by (simp add: startedWorker_def execute_def newWorker_def resetTimeout_def Let_def)

lemma prompted_reply:
  "onPermissionRequest startedWorker (''shell'', Some ''bash'') =
     (promptedWorker, Suspended ''agent-1-perm-1'')"
  by (simp add: promptedWorker_def startedWorker_eq onPermissionRequest_def Let_def
        mapPermissionKind_def approvalIdOf_def show_nat_1)

lemma promptedWorker_eq:
  "promptedWorker =
     \<lparr> agentId = ''agent-1'', toolsEnabled = True, autoApproveBudget = 0,
       pendingApprovals = [''agent-1-perm-1''],
       approvalCounter = 1, currentOnStream = True, currentTraceId = Some ''trace-1'',
       resetIdleTimeout = True, timeoutBudget = 30000, timer = Some 30000, resolved = False,
       fullContent = [],
       emitted = [Start ''agent-1'' ''trace-1'',
                  ApprovalRequired ''trace-1'' ''agent-1'' ''bash'' ''agent-1-perm-1'' ''shell''],
       settledPermissions = [], outcomes = [] \<rparr>"
  by (simp add: promptedWorker_def startedWorker_eq onPermissionRequest_def Let_def
        mapPermissionKind_def approvalIdOf_def show_nat_1 map_set_def)

lemma quietWorker_eq:
  "silence promptedWorker 20000 = promptedWorker\<lparr>timer := Some 10000\<rparr>"
  by (simp add: silence_def promptedWorker_eq)

section \<open>Permission kinds\<close>

text \<open>
  C8. For every kind string the mapped permission kind is one of shell, write, read, mcp
  and url, and every kind string that is not one of the recognised aliases is mapped to
  write.
\<close>

theorem mapPermissionKind_range:
  "mapPermissionKind kind \<in> permissionKinds \<and>
   (kind \<notin> recognisedKinds \<longrightarrow> mapPermissionKind kind = ''write'')"
  unfolding mapPermissionKind_def permissionKinds_def recognisedKinds_def
  by (simp del: list.inject)

theorem mapPermissionKind_range_witness:
  "mapPermissionKind ''delete-everything'' \<in> permissionKinds \<and>
   ''delete-everything'' \<notin> recognisedKinds \<and>
   mapPermissionKind ''delete-everything'' = ''write''"
proof -
  have notin: "''delete-everything'' \<notin> recognisedKinds"
    by (simp add: recognisedKinds_def)
  from mapPermissionKind_range [of "''delete-everything''"] notin show ?thesis
    by blast
qed

text \<open>
  C9. A permission request whose kind maps to read is approved at once: the worker is
  left exactly as it was (no event is emitted, the auto-approve budget is neither read
  nor changed, nothing is stored in the pending map), and the reply is not a suspended
  promise. Conversely a request that emits \<^verbatim>\<open>approval_required\<close> or suspends has a kind
  that does not map to read.
\<close>

theorem read_fast_path:
  "(mapPermissionKind (fst request) = ''read'' \<longrightarrow>
      onPermissionRequest w request = (w, Now ''approved'')) \<and>
   (onPermissionRequest w request = (w', reply) \<and>
      (emitted w' \<noteq> emitted w \<or> (\<exists>a. reply = Suspended a)) \<longrightarrow>
      mapPermissionKind (fst request) \<noteq> ''read'')"
  by (auto simp: onPermissionRequest_def Let_def split: if_splits)

theorem read_fast_path_witness:
  "mapPermissionKind (fst (''file-read'', Some ''view'')) = ''read'' \<and>
   onPermissionRequest promptedWorker (''file-read'', Some ''view'')
     = (promptedWorker, Now ''approved'') \<and>
   onPermissionRequest startedWorker (''shell'', Some ''bash'')
     = (promptedWorker, Suspended ''agent-1-perm-1'') \<and>
   emitted promptedWorker \<noteq> emitted startedWorker \<and>
   mapPermissionKind (fst (''shell'', Some ''bash'')) \<noteq> ''read''"
proof -
  have k: "mapPermissionKind (fst (''file-read'', Some ''view'')) = ''read''"
    by (simp add: mapPermissionKind_def)
  have e: "emitted promptedWorker \<noteq> emitted startedWorker"
    by (simp add: promptedWorker_eq startedWorker_eq)
  from read_fast_path [of "(''file-read'', Some ''view'')" promptedWorker] k
  have a: "onPermissionRequest promptedWorker (''file-read'', Some ''view'')
     = (promptedWorker, Now ''approved'')"
    by blast
  from read_fast_path [of "(''shell'', Some ''bash'')" startedWorker promptedWorker
      "Suspended ''agent-1-perm-1''"] prompted_reply e
  have b: "mapPermissionKind (fst (''shell'', Some ''bash'')) \<noteq> ''read''"
    by blast
  from k a prompted_reply e b show ?thesis by blast
qed

section \<open>Approval budget\<close>




section \<open>Idle timer\<close>

text \<open>
  C4. While a turn with idle budget \<open>T\<close> is running: every session event after which the
  turn is still running leaves the timer armed with the whole of \<open>T\<close>, and only
  \<^verbatim>\<open>session.idle\<close> and \<^verbatim>\<open>session.error\<close> end the turn; a silence shorter than the
  time left only runs the timer down; when the timer fires with an approval pending,
  the worker is unchanged but for the timer, armed again with \<open>T\<close>; when it fires with
  none pending, the turn is rejected with code \<^verbatim>\<open>TIMEOUT\<close> (an abort rejects with
  \<^verbatim>\<open>CANCELLED\<close>); resolving a pending approval arms the timer with \<open>T\<close>, so that a
  shorter silence does not end the turn and a silence of \<open>T\<close> with nothing pending
  rejects it with \<^verbatim>\<open>TIMEOUT\<close>.
\<close>

theorem idle_timer:
  assumes run: "\<not> resolved w" and pub: "resetIdleTimeout w"
  shows
    "(\<not> resolved (onSessionEvent w ev) \<longrightarrow>
        timer (onSessionEvent w ev) = Some (timeoutBudget w)) \<and>
     (resolved (onSessionEvent w ev) \<longrightarrow> ev = SessionIdle \<or> (\<exists>m. ev = SessionError m)) \<and>
     (timer w = Some r \<and> d < r \<longrightarrow> silence w d = w\<lparr>timer := Some (r - d)\<rparr>) \<and>
     (timer w = Some r \<and> r \<le> d \<and> pendingApprovals w \<noteq> [] \<longrightarrow>
        silence w d = w\<lparr>timer := Some (timeoutBudget w)\<rparr>) \<and>
     (timer w = Some r \<and> r \<le> d \<and> pendingApprovals w = [] \<longrightarrow>
        resolved (silence w d) \<and>
        outcomes (silence w d) = outcomes w @ [Rejected ''TIMEOUT'' (timeoutMessage w)] \<and>
        emitted (silence w d) = emitted w @
          [ErrorEvent (agentId w) (theTraceId w) ''TIMEOUT'' (timeoutMessage w) True]) \<and>
     (\<exists>m. outcomes (abort w) = outcomes w @ [Rejected ''CANCELLED'' m] \<and>
          emitted (abort w) = emitted w @
            [ErrorEvent (agentId w) (theTraceId w) ''CANCELLED'' m False]) \<and>
     (a \<in> set (pendingApprovals w) \<longrightarrow>
        timer (resolveApproval w a response) = Some (timeoutBudget w) \<and>
        \<not> resolved (resolveApproval w a response) \<and>
        (d < timeoutBudget w \<longrightarrow>
           \<not> resolved (silence (resolveApproval w a response) d) \<and>
           outcomes (silence (resolveApproval w a response) d) = outcomes w) \<and>
        (pendingApprovals (resolveApproval w a response) = [] \<longrightarrow>
           outcomes (silence (resolveApproval w a response) (timeoutBudget w)) =
             outcomes w @ [Rejected ''TIMEOUT'' (timeoutMessage w)]))"
proof -
  have ev1: "\<not> resolved (onSessionEvent w ev) \<longrightarrow>
        timer (onSessionEvent w ev) = Some (timeoutBudget w)"
    using run
    by (cases ev)
       (auto simp: onSessionEvent_def Let_def resetTimeout_def catchBlock_fields
          completeTurn_fields split: option.splits)
  have ev2: "resolved (onSessionEvent w ev) \<longrightarrow> ev = SessionIdle \<or> (\<exists>m. ev = SessionError m)"
    using run
    by (cases ev) (auto simp: onSessionEvent_def Let_def resetTimeout_def split: option.splits)
  have s1: "timer w = Some r \<and> d < r \<longrightarrow> silence w d = w\<lparr>timer := Some (r - d)\<rparr>"
    by (simp add: silence_def)
  have s2: "timer w = Some r \<and> r \<le> d \<and> pendingApprovals w \<noteq> [] \<longrightarrow>
        silence w d = w\<lparr>timer := Some (timeoutBudget w)\<rparr>"
    using run pub by (simp add: silence_def timerFired_def resetTimeout_def)
  have s3: "timer w = Some r \<and> r \<le> d \<and> pendingApprovals w = [] \<longrightarrow>
        resolved (silence w d) \<and>
        outcomes (silence w d) = outcomes w @ [Rejected ''TIMEOUT'' (timeoutMessage w)] \<and>
        emitted (silence w d) = emitted w @
          [ErrorEvent (agentId w) (theTraceId w) ''TIMEOUT'' (timeoutMessage w) True]"
    using run
    by (simp add: silence_def timerFired_def catchBlock_fields errorCodeOf_def errorMsgOf_def
          timeoutMessage_def theTraceId_def)
  have ab: "\<exists>m. outcomes (abort w) = outcomes w @ [Rejected ''CANCELLED'' m] \<and>
          emitted (abort w) = emitted w @
            [ErrorEvent (agentId w) (theTraceId w) ''CANCELLED'' m False]"
    using run
    by (simp add: abort_def Let_def catchBlock_fields errorCodeOf_def errorMsgOf_def theTraceId_def)
  have res: "timer (resolveApproval w a response) = Some (timeoutBudget w) \<and>
        \<not> resolved (resolveApproval w a response) \<and>
        (d < timeoutBudget w \<longrightarrow>
           \<not> resolved (silence (resolveApproval w a response) d) \<and>
           outcomes (silence (resolveApproval w a response) d) = outcomes w) \<and>
        (pendingApprovals (resolveApproval w a response) = [] \<longrightarrow>
           outcomes (silence (resolveApproval w a response) (timeoutBudget w)) =
             outcomes w @ [Rejected ''TIMEOUT'' (timeoutMessage w)])"
    if "a \<in> set (pendingApprovals w)"
  proof -
    let ?w' = "resolveApproval w a response"
    have f: "timer ?w' = Some (timeoutBudget w)" "\<not> resolved ?w'" "outcomes ?w' = outcomes w"
      "timeoutBudget ?w' = timeoutBudget w" "agentId ?w' = agentId w"
      using that run pub by (simp_all add: resolveApproval_def Let_def resetTimeout_def)
    have a1: "d < timeoutBudget w \<longrightarrow>
           \<not> resolved (silence ?w' d) \<and> outcomes (silence ?w' d) = outcomes w"
      using f by (simp add: silence_def)
    have a2: "pendingApprovals ?w' = [] \<longrightarrow>
           outcomes (silence ?w' (timeoutBudget w)) =
             outcomes w @ [Rejected ''TIMEOUT'' (timeoutMessage w)]"
      using f
      by (simp add: silence_def timerFired_def catchBlock_fields errorCodeOf_def errorMsgOf_def
            timeoutMessage_def)
    from f a1 a2 show ?thesis by blast
  qed
  from ev1 ev2 s1 s2 s3 ab res show ?thesis by blast
qed

theorem idle_timer_witness:
  "\<not> resolved (silence promptedWorker 20000) \<and>
   resetIdleTimeout (silence promptedWorker 20000) \<and>
   timer (silence promptedWorker 20000) = Some 10000 \<and>
   timer (onSessionEvent (silence promptedWorker 20000) (MessageDelta (Some ''hi''))) = Some 30000 \<and>
   silence (silence promptedWorker 20000) 10000 = promptedWorker \<and>
   timer (resolveApproval (silence promptedWorker 20000) ''agent-1-perm-1''
            \<lparr>approved = True, budget = 1\<rparr>) = Some 30000 \<and>
   outcomes (silence (resolveApproval (silence promptedWorker 20000) ''agent-1-perm-1''
            \<lparr>approved = True, budget = 1\<rparr>) 30000) =
     [Rejected ''TIMEOUT'' (timeoutMessage promptedWorker)] \<and>
   outcomes (silence startedWorker 30000) = [Rejected ''TIMEOUT'' (timeoutMessage startedWorker)]"
proof -
  let ?w = "silence promptedWorker 20000"
  have h: "\<not> resolved ?w" "resetIdleTimeout ?w" "timer ?w = Some 10000"
    "pendingApprovals ?w \<noteq> []" "''agent-1-perm-1'' \<in> set (pendingApprovals ?w)"
    "timeoutBudget ?w = 30000" "outcomes ?w = []"
    unfolding quietWorker_eq by (simp_all add: promptedWorker_eq)
  have e: "\<not> resolved (onSessionEvent ?w (MessageDelta (Some ''hi'')))"
    unfolding quietWorker_eq
    by (simp add: promptedWorker_eq onSessionEvent_def Let_def resetTimeout_def truthy_def)
  have p: "pendingApprovals (resolveApproval ?w ''agent-1-perm-1'' \<lparr>approved = True, budget = 1\<rparr>) = []"
    unfolding quietWorker_eq
    by (simp add: promptedWorker_eq resolveApproval_def Let_def resetTimeout_def map_delete_def)
  have tm: "timeoutMessage ?w = timeoutMessage promptedWorker"
    unfolding quietWorker_eq by (simp add: timeoutMessage_def)
  have same: "?w\<lparr>timer := Some 30000\<rparr> = promptedWorker"
    unfolding quietWorker_eq by (simp add: promptedWorker_eq)
  have g: "\<not> resolved startedWorker" "resetIdleTimeout startedWorker"
    "timer startedWorker = Some 30000" "pendingApprovals startedWorker = []"
    "outcomes startedWorker = []"
    by (simp_all add: startedWorker_eq)
  from idle_timer [OF h(1) h(2), where ev = "MessageDelta (Some ''hi'')" and r = 10000
      and d = 10000 and a = "''agent-1-perm-1''" and response = "\<lparr>approved = True, budget = 1\<rparr>"]
    h e same
  have a: "timer (onSessionEvent ?w (MessageDelta (Some ''hi''))) = Some 30000"
    and b: "silence ?w 10000 = promptedWorker"
    and c: "timer (resolveApproval ?w ''agent-1-perm-1'' \<lparr>approved = True, budget = 1\<rparr>) = Some 30000"
    by simp_all
  from idle_timer [OF h(1) h(2), where ev = "MessageDelta (Some ''hi'')" and r = 10000
      and d = 30000 and a = "''agent-1-perm-1''" and response = "\<lparr>approved = True, budget = 1\<rparr>"]
    h p tm
  have d: "outcomes (silence (resolveApproval ?w ''agent-1-perm-1''
            \<lparr>approved = True, budget = 1\<rparr>) 30000) =
     [Rejected ''TIMEOUT'' (timeoutMessage promptedWorker)]"
    by simp
  from idle_timer [OF g(1) g(2), where ev = OtherEvent and r = 30000 and d = 30000
      and a = "[]" and response = "\<lparr>approved = True, budget = 1\<rparr>"] g
  have f: "outcomes (silence startedWorker 30000) = [Rejected ''TIMEOUT'' (timeoutMessage startedWorker)]"
    by simp
  from h(1) h(2) h(3) a b c d f show ?thesis by blast
qed

section \<open>Turns that end in an error\<close>

text \<open>
  C5. Whenever a step of the worker ends a turn in an error (the call of \<^verbatim>\<open>execute\<close> is
  rejected with some code, \<^verbatim>\<open>CANCELLED\<close> included), no approval is pending afterwards,
  every approval that was pending has been settled by its resolver called with
  \<open>approved = false\<close>, and the step emits one error event, whose \<open>recoverable\<close> flag is
  false exactly when the code is \<^verbatim>\<open>CANCELLED\<close>.
\<close>

theorem error_clears_approvals:
  assumes "outcomes (fst (step w i)) = outcomes w @ [Rejected code msg]"
  shows "pendingApprovals (fst (step w i)) = [] \<and>
         settledPermissions (fst (step w i)) = settledPermissions w @
           map (\<lambda>a. (a, resolverResult \<lparr>approved = False, budget = 0\<rparr>)) (pendingApprovals w) \<and>
         (\<exists>agent tid. emitted (fst (step w i)) = emitted w @
            [ErrorEvent agent tid code msg (code \<noteq> ''CANCELLED'')])"
proof -
  from step_outcomes [of w i] assms
  obtain w0 err where c: "fst (step w i) = catchBlock w0 err" and o: "outcomes w0 = outcomes w"
    and e: "emitted w0 = emitted w" and p: "pendingApprovals w0 = pendingApprovals w"
    and s: "settledPermissions w0 = settledPermissions w"
    by auto
  from assms c o have "code = errorCodeOf err" "msg = errorMsgOf err"
    by (simp_all add: catchBlock_fields)
  with c e p s show ?thesis
    by (simp add: catchBlock_fields resolverResult_def)
qed

theorem error_clears_approvals_witness:
  "outcomes (fst (step promptedWorker Abort)) =
     outcomes promptedWorker @
       [Rejected ''CANCELLED'' ''Copilot worker agent-1 was cancelled''] \<and>
   pendingApprovals promptedWorker = [''agent-1-perm-1''] \<and>
   pendingApprovals (fst (step promptedWorker Abort)) = [] \<and>
   settledPermissions (fst (step promptedWorker Abort)) =
     [(''agent-1-perm-1'', ''denied-interactively-by-user'')] \<and>
   (\<exists>agent tid. emitted (fst (step promptedWorker Abort)) = emitted promptedWorker @
      [ErrorEvent agent tid ''CANCELLED'' ''Copilot worker agent-1 was cancelled'' False])"
proof -
  have h: "outcomes (fst (step promptedWorker Abort)) =
     outcomes promptedWorker @
       [Rejected ''CANCELLED'' ''Copilot worker agent-1 was cancelled'']"
    by (simp add: promptedWorker_eq abort_def Let_def catchBlock_fields errorCodeOf_def
          errorMsgOf_def)
  have p: "pendingApprovals promptedWorker = [''agent-1-perm-1'']"
    "settledPermissions promptedWorker = []"
    by (simp_all add: promptedWorker_eq)
  from error_clears_approvals [OF h] p h show ?thesis
    by (simp add: resolverResult_def del: step.simps)
qed

section \<open>Approval ids and late resolutions\<close>

text \<open>
  C7. The approval ids emitted in any run of a new worker are pairwise distinct: no step
  lowers the counter, a request that prompts raises it by one and builds its id from the
  new value, and ids built from different counter values differ. Resolving an id that is
  not pending returns the worker unchanged (no resolver runs, the budget and the timer
  stay as they are), and so does resolving an id a second time.
\<close>

theorem approval_ids:
  "distinct (approvalIds (emitted (fst (run (newWorker agent tools) ins)))) \<and>
   approvalCounter w \<le> approvalCounter (fst (step w i)) \<and>
   (onPermissionRequest w request = (w', Suspended aid) \<longrightarrow>
      approvalCounter w' = approvalCounter w + 1 \<and>
      aid = approvalIdOf (agentId w) (approvalCounter w') \<and>
      approvalIds (emitted w') = approvalIds (emitted w) @ [aid]) \<and>
   (approvalIdOf agent n = approvalIdOf agent m \<longrightarrow> n = m) \<and>
   (aid \<notin> set (pendingApprovals w) \<longrightarrow> resolveApproval w aid response = w) \<and>
   resolveApproval (resolveApproval w aid response) aid response' = resolveApproval w aid response"
proof -
  have "idsInv (newWorker agent tools)"
    by (simp add: idsInv_def newWorker_def approvalIds_def)
  then have d: "distinct (approvalIds (emitted (fst (run (newWorker agent tools) ins))))"
    using idsInv_run [of "newWorker agent tools" ins] by (simp add: idsInv_def)
  have p: "approvalCounter w' = approvalCounter w + 1 \<and>
      aid = approvalIdOf (agentId w) (approvalCounter w') \<and>
      approvalIds (emitted w') = approvalIds (emitted w) @ [aid]"
    if "onPermissionRequest w request = (w', Suspended aid)"
    using prompt_facts [OF that] by (simp add: approvalIds_def)
  have u: "resolveApproval w aid response = w" if "aid \<notin> set (pendingApprovals w)"
    using that by (simp add: resolveApproval_def)
  have "aid \<notin> set (pendingApprovals (resolveApproval w aid response))"
    by (simp add: resolveApproval_def Let_def map_delete_def resetTimeout_def)
  then have dup: "resolveApproval (resolveApproval w aid response) aid response'
      = resolveApproval w aid response"
    by (simp add: resolveApproval_def [of "resolveApproval w aid response"])
  from d counter_step [of w i] p u dup approvalIdOf_inj [of agent n m] show ?thesis
    by blast
qed

theorem approval_ids_witness:
  "distinct (approvalIds (emitted (fst (run (newWorker ''agent-1'' True)
      [Execute 30000 ''trace-1'' None, PermissionRequest ''shell'' None,
       PermissionRequest ''write'' None])))) \<and>
   onPermissionRequest startedWorker (''shell'', Some ''bash'') =
     (promptedWorker, Suspended ''agent-1-perm-1'') \<and>
   approvalCounter promptedWorker = approvalCounter startedWorker + 1 \<and>
   ''agent-1-perm-1'' = approvalIdOf (agentId startedWorker) (approvalCounter promptedWorker) \<and>
   ''agent-1-perm-7'' \<notin> set (pendingApprovals promptedWorker) \<and>
   resolveApproval promptedWorker ''agent-1-perm-7'' \<lparr>approved = True, budget = 5\<rparr>
     = promptedWorker"
proof -
  have n: "''agent-1-perm-7'' \<notin> set (pendingApprovals promptedWorker)"
    by (simp add: promptedWorker_eq)
  from approval_ids [where agent = "''agent-1''" and tools = True
      and ins = "[Execute 30000 ''trace-1'' None, PermissionRequest ''shell'' None,
       PermissionRequest ''write'' None]"
      and w = startedWorker and request = "(''shell'', Some ''bash'')" and w' = promptedWorker
      and aid = "''agent-1-perm-1''"] prompted_reply
  have a: "distinct (approvalIds (emitted (fst (run (newWorker ''agent-1'' True)
      [Execute 30000 ''trace-1'' None, PermissionRequest ''shell'' None,
       PermissionRequest ''write'' None]))))"
    and b: "approvalCounter promptedWorker = approvalCounter startedWorker + 1"
    and c: "''agent-1-perm-1'' = approvalIdOf (agentId startedWorker) (approvalCounter promptedWorker)"
    by blast+
  from approval_ids [where w = promptedWorker and aid = "''agent-1-perm-7''"
      and response = "\<lparr>approved = True, budget = 5\<rparr>"] n
  have d: "resolveApproval promptedWorker ''agent-1-perm-7'' \<lparr>approved = True, budget = 5\<rparr>
     = promptedWorker"
    by blast
  from a prompted_reply b c n d show ?thesis by blast
qed

section \<open>Session errors after content\<close>

text \<open>
  C10. When \<^verbatim>\<open>session.error\<close> arrives in a running turn whose accumulated content is
  not empty, the turn resolves with that content and emits \<^verbatim>\<open>complete\<close>, no error
  event; when the content is empty, the turn is rejected with \<^verbatim>\<open>WORKER_EXECUTION\<close>.
\<close>

theorem session_error_preserves_content:
  assumes "\<not> resolved w"
  shows
    "(fullContent w \<noteq> [] \<longrightarrow>
        outcomes (onSessionEvent w (SessionError m)) = outcomes w @ [Resolved (fullContent w)] \<and>
        emitted (onSessionEvent w (SessionError m)) =
          emitted w @ [Complete (agentId w) (theTraceId w) (fullContent w)]) \<and>
     (fullContent w = [] \<longrightarrow>
        outcomes (onSessionEvent w (SessionError m)) = outcomes w @
          [Rejected ''WORKER_EXECUTION''
             (''Copilot error: '' @ (case m of None \<Rightarrow> ''Unknown Copilot error'' | Some e \<Rightarrow> e))] \<and>
        emitted (onSessionEvent w (SessionError m)) = emitted w @
          [ErrorEvent (agentId w) (theTraceId w) ''WORKER_EXECUTION''
             (''Copilot error: '' @ (case m of None \<Rightarrow> ''Unknown Copilot error'' | Some e \<Rightarrow> e))
             True])"
  using assms
  by (simp add: onSessionEvent_def Let_def resetTimeout_def catchBlock_fields completeTurn_fields
        errorCodeOf_def errorMsgOf_def theTraceId_def)

theorem session_error_preserves_content_witness:
  "\<not> resolved startedWorker \<and> fullContent startedWorker = [] \<and>
   outcomes (onSessionEvent startedWorker (SessionError (Some ''boom''))) =
     [Rejected ''WORKER_EXECUTION'' ''Copilot error: boom''] \<and>
   \<not> resolved (onSessionEvent startedWorker (MessageDelta (Some ''partial''))) \<and>
   fullContent (onSessionEvent startedWorker (MessageDelta (Some ''partial''))) = ''partial'' \<and>
   outcomes (onSessionEvent (onSessionEvent startedWorker (MessageDelta (Some ''partial'')))
      (SessionError (Some ''boom''))) = [Resolved ''partial'']"
proof -
  let ?w = "onSessionEvent startedWorker (MessageDelta (Some ''partial''))"
  have g: "\<not> resolved startedWorker" "fullContent startedWorker = []"
    "outcomes startedWorker = []"
    by (simp_all add: startedWorker_eq)
  have h: "\<not> resolved ?w" "fullContent ?w = ''partial''" "outcomes ?w = []"
    by (simp_all add: startedWorker_eq onSessionEvent_def Let_def resetTimeout_def truthy_def)
  from session_error_preserves_content [OF g(1), of "Some ''boom''"] g
  have a: "outcomes (onSessionEvent startedWorker (SessionError (Some ''boom''))) =
     [Rejected ''WORKER_EXECUTION'' ''Copilot error: boom'']"
    by simp
  from session_error_preserves_content [OF h(1), of "Some ''boom''"] h
  have b: "outcomes (onSessionEvent ?w (SessionError (Some ''boom''))) = [Resolved ''partial'']"
    by simp
  from g(1) g(2) a h(1) h(2) b show ?thesis by blast
qed

section \<open>Facts about the chat view\<close>

lemma indexOf_range: "indexOf xs x = - 1 \<or> 0 \<le> indexOf xs x"
  by (induction xs) (auto simp: Let_def)

lemma compare_key:
  "compareMessages ord a b \<le> 0 \<longleftrightarrow> promotionKey ord a \<le> promotionKey ord b"
  using indexOf_range [of ord "senderId a"] indexOf_range [of ord "senderId b"]
  by (auto simp: compareMessages_def promotionKey_def Let_def)

lemma insertSorted_insort_key:
  "insertSorted (compareMessages ord) x ys = insort_key (promotionKey ord) x ys"
  by (induction ys) (simp_all add: compare_key)

lemma arraySort_sort_key:
  "arraySort (compareMessages ord) xs = sort_key (promotionKey ord) xs"
  by (induction xs) (simp_all add: arraySort_def sort_key_def insertSorted_insort_key)

lemma key_less_spec:
  "promotionKey ord a < promotionKey ord b \<Longrightarrow> spec_dispatch_order ord a b"
  using indexOf_range [of ord "senderId a"] indexOf_range [of ord "senderId b"]
  by (auto simp: spec_dispatch_order_def promotionKey_def Let_def split: if_splits)

lemma key_eq_spec:
  "promotionKey ord a = promotionKey ord b \<Longrightarrow> timestamp a \<le> timestamp b \<Longrightarrow>
   spec_dispatch_order ord a b"
  by (auto simp: spec_dispatch_order_def promotionKey_def Let_def split: if_splits)

lemma sorted_wrt_insort_key:
  fixes f :: "'a \<Rightarrow> 'k::linorder"
  assumes "sorted (map f ys)" "sorted_wrt R ys"
    "\<forall>y \<in> set ys. (f y < f x \<longrightarrow> R y x) \<and> (f x \<le> f y \<longrightarrow> R x y)"
  shows "sorted_wrt R (insort_key f x ys)"
  using assms
proof (induction ys)
  case Nil
  then show ?case by simp
next
  case (Cons y ys)
  show ?case
  proof (cases "f x \<le> f y")
    case True
    have "R x z" if "z \<in> set (y # ys)" for z
    proof -
      from that Cons.prems(1) have "f y \<le> f z" by auto
      with True have "f x \<le> f z" by simp
      with Cons.prems(3) that show ?thesis by blast
    qed
    with True Cons.prems(2) show ?thesis by simp
  next
    case False
    then have lt: "f y < f x" by simp
    have ih: "sorted_wrt R (insort_key f x ys)"
      using Cons.prems by (intro Cons.IH) simp_all
    have "R y z" if "z \<in> set (insort_key f x ys)" for z
      using that lt Cons.prems(2,3) by (auto simp: set_insort_key)
    with False ih show ?thesis by simp
  qed
qed

lemma sort_key_spec_order:
  "sorted (map timestamp xs) \<Longrightarrow>
   sorted_wrt (spec_dispatch_order ord) (sort_key (promotionKey ord) xs)"
proof (induction xs)
  case Nil
  then show ?case by simp
next
  case (Cons x xs)
  have ts: "\<forall>y \<in> set xs. timestamp x \<le> timestamp y" and tail: "sorted (map timestamp xs)"
    using Cons.prems by auto
  have ih: "sorted_wrt (spec_dispatch_order ord) (sort_key (promotionKey ord) xs)"
    using Cons.IH tail by simp
  have rel: "\<forall>y \<in> set (sort_key (promotionKey ord) xs).
      (promotionKey ord y < promotionKey ord x \<longrightarrow> spec_dispatch_order ord y x) \<and>
      (promotionKey ord x \<le> promotionKey ord y \<longrightarrow> spec_dispatch_order ord x y)"
  proof (intro ballI conjI impI)
    fix y assume "y \<in> set (sort_key (promotionKey ord) xs)"
    then have y: "y \<in> set xs" by simp
    { assume "promotionKey ord y < promotionKey ord x"
      then show "spec_dispatch_order ord y x" by (rule key_less_spec) }
    { assume "promotionKey ord x \<le> promotionKey ord y"
      then consider "promotionKey ord x < promotionKey ord y"
        | "promotionKey ord x = promotionKey ord y" by (auto simp: le_less)
      then show "spec_dispatch_order ord x y"
      proof cases
        case 1 then show ?thesis by (rule key_less_spec)
      next
        case 2 with ts y show ?thesis by (auto intro: key_eq_spec)
      qed }
  qed
  have "sort_key (promotionKey ord) (x # xs) =
        insort_key (promotionKey ord) x (sort_key (promotionKey ord) xs)"
    by (simp add: sort_key_def)
  with sorted_wrt_insort_key [OF _ ih rel] show ?case by simp
qed

lemma collect_props:
  "collectCompleted ids sids msgs = (ids', new) \<Longrightarrow>
   ids' = ids \<union> message_id ` set new \<and> distinct (map message_id new) \<and>
   (\<forall>m \<in> set new. message_id m \<notin> ids \<and> message_id m \<notin> sids \<and> isComplete m \<and> m \<in> set msgs)"
proof (induction msgs arbitrary: ids ids' new)
  case Nil
  then show ?case by simp
next
  case (Cons m msgs)
  show ?case
  proof (cases "message_id m \<notin> ids \<and> message_id m \<notin> sids \<and> isComplete m")
    case True
    obtain i r where c: "collectCompleted (insert (message_id m) ids) sids msgs = (i, r)"
      by (cases "collectCompleted (insert (message_id m) ids) sids msgs")
    with True Cons.prems have eq: "ids' = i" "new = m # r" by simp_all
    from Cons.IH [OF c] eq True show ?thesis by auto
  next
    case False
    with Cons.prems have "collectCompleted ids sids msgs = (ids', new)"
      by (auto split: if_splits)
    from Cons.IH [OF this] show ?thesis by auto
  qed
qed

lemma collect_sorted:
  "sorted (map timestamp msgs) \<Longrightarrow> sorted (map timestamp (snd (collectCompleted ids sids msgs)))"
proof (induction msgs arbitrary: ids)
  case Nil
  then show ?case by simp
next
  case (Cons m msgs)
  have tail: "sorted (map timestamp msgs)" and hd: "\<forall>y \<in> set msgs. timestamp m \<le> timestamp y"
    using Cons.prems by auto
  show ?case
  proof (cases "message_id m \<notin> ids \<and> message_id m \<notin> sids \<and> isComplete m")
    case True
    obtain i r where c: "collectCompleted (insert (message_id m) ids) sids msgs = (i, r)"
      by (cases "collectCompleted (insert (message_id m) ids) sids msgs")
    from collect_props [OF c] have "set r \<subseteq> set msgs" by auto
    moreover from Cons.IH [OF tail, of "insert (message_id m) ids"] c
    have "sorted (map timestamp r)" by simp
    ultimately show ?thesis using True c hd by auto
  next
    case False
    then have "collectCompleted ids sids (m # msgs) = collectCompleted ids sids msgs"
      by auto
    with Cons.IH [OF tail, of ids] show ?thesis by simp
  qed
qed

lemma promote_entries:
  "staticEntries (promoteCompleted sids ord msgs st) =
     staticEntries st @
       map messageEntry (sort_key (promotionKey ord) (snd (collectCompleted (staticIds st) sids msgs)))"
  "staticIds (promoteCompleted sids ord msgs st) = fst (collectCompleted (staticIds st) sids msgs)"
  by (auto simp: promoteCompleted_def Let_def arraySort_sort_key split: prod.splits)

lemma demo_collect:
  "collectCompleted {} {} [earlyMessage, otherMessage, lateMessage]
     = ({''m1'', ''m3'', ''m2''}, [earlyMessage, otherMessage, lateMessage])"
  by (simp add: earlyMessage_def otherMessage_def lateMessage_def isComplete_def)

lemma filter_unique:
  "distinct (map f xs) \<Longrightarrow> x \<in> set xs \<Longrightarrow> filter (\<lambda>y. f y = f x) xs = [x]"
proof (induction xs)
  case Nil
  then show ?case by simp
next
  case (Cons y ys)
  show ?case
  proof (cases "x = y")
    case True
    from Cons.prems have "f y \<notin> f ` set ys" by simp
    with True have "\<forall>z \<in> set ys. f z \<noteq> f x" by (metis imageI)
    then have "filter (\<lambda>z. f z = f x) ys = []"
      by (simp add: filter_empty_conv)
    with True show ?thesis by simp
  next
    case False
    with Cons.prems have "x \<in> set ys" "f y \<noteq> f x" "distinct (map f ys)" by auto
    with Cons.IH show ?thesis by simp
  qed
qed

lemma promote_keeps:
  assumes "mid \<in> staticIds st"
  shows "filter (\<lambda>e. entry_id e = mid) (staticEntries (promoteCompleted sids ord msgs st)) =
           filter (\<lambda>e. entry_id e = mid) (staticEntries st) \<and>
         mid \<in> staticIds (promoteCompleted sids ord msgs st)"
proof -
  obtain ids new where c: "collectCompleted (staticIds st) sids msgs = (ids, new)"
    by (cases "collectCompleted (staticIds st) sids msgs")
  from collect_props [OF c] assms
  have fresh: "\<forall>m \<in> set new. message_id m \<noteq> mid" and grow: "mid \<in> ids" by auto
  have "filter (\<lambda>e. entry_id e = mid) (map messageEntry (sort_key (promotionKey ord) new)) = []"
    using fresh by (auto simp: filter_empty_conv messageEntry_def)
  with c grow show ?thesis by (simp add: promote_entries)
qed

lemma promoteAll_keeps:
  "mid \<in> staticIds st \<Longrightarrow>
   filter (\<lambda>e. entry_id e = mid) (staticEntries (promoteAll scans st)) =
     filter (\<lambda>e. entry_id e = mid) (staticEntries st)"
proof (induction scans arbitrary: st)
  case Nil
  then show ?case by simp
next
  case (Cons scan scans)
  obtain sids ord msgs where scan: "scan = (sids, ord, msgs)" by (cases scan)
  from promote_keeps [OF Cons.prems, of sids ord msgs] Cons.IH [of "promoteCompleted sids ord msgs st"]
  show ?case by (simp add: scan)
qed

lemma promoted_once:
  "promoteCompleted {} [] [earlyMessage] (emptyChat :: (unit, unit) chat) =
     emptyChat\<lparr>staticIds := {''m2''}, staticEntries := [messageEntry earlyMessage]\<rparr>"
  by (simp add: promoteCompleted_def emptyChat_def earlyMessage_def isComplete_def arraySort_def)

lemma lower_Y: "toLowerCase ''Y'' = ''y''"
  by code_simp

lemma lower_n: "toLowerCase ''n'' = ''n''"
  by code_simp

section \<open>Order of promotion\<close>

text \<open>
  C2, as the claim words it: the batch appended by one promotion scan is ordered by the
  sender's position in the dispatch order, ties broken by ascending timestamp. This
  fails: two finished messages of one dispatched sender, the one with the later
  timestamp first in the message list, are appended in that order.
\<close>

theorem promotion_order_counterexample:
  "\<not> sorted_wrt (spec_dispatch_order [''A''])
       (entryMessages (staticEntries
          (promoteCompleted {} [''A''] [lateMessage, earlyMessage] (emptyChat :: (unit, unit) chat))))"
  by (simp add: promoteCompleted_def emptyChat_def lateMessage_def earlyMessage_def isComplete_def
        arraySort_def compareMessages_def messageEntry_def spec_dispatch_order_def)

text \<open>
  C2, amended. The batch appended by one promotion scan is the newly completed messages
  in this order: first the messages whose sender is not in the dispatch order, by
  ascending timestamp; then the others by their sender's position in the dispatch order;
  messages that tie keep their order in the message list (the sort is stable, and the
  comparator looks at timestamps only when both senders are outside the dispatch
  order). Hence, whenever the message list is in ascending timestamp order, the batch is
  in the order the claim words.
\<close>

theorem promotion_order:
  "staticEntries (promoteCompleted sids ord msgs st) =
     staticEntries st @
       map messageEntry (sort_key (promotionKey ord) (snd (collectCompleted (staticIds st) sids msgs))) \<and>
   (sorted (map timestamp msgs) \<longrightarrow>
      sorted_wrt (spec_dispatch_order ord)
        (sort_key (promotionKey ord) (snd (collectCompleted (staticIds st) sids msgs))))"
  by (simp add: promote_entries sort_key_spec_order collect_sorted)

theorem promotion_order_witness:
  "sorted (map timestamp [earlyMessage, otherMessage, lateMessage]) \<and>
   staticEntries (promoteCompleted {} [''B'', ''A''] [earlyMessage, otherMessage, lateMessage]
      (emptyChat :: (unit, unit) chat)) =
     map messageEntry
       (sort_key (promotionKey [''B'', ''A'']) [earlyMessage, otherMessage, lateMessage]) \<and>
   sorted_wrt (spec_dispatch_order [''B'', ''A''])
     (sort_key (promotionKey [''B'', ''A'']) [earlyMessage, otherMessage, lateMessage]) \<and>
   sort_key (promotionKey [''B'', ''A'']) [earlyMessage, otherMessage, lateMessage] =
     [otherMessage, earlyMessage, lateMessage]"
proof -
  have s: "sorted (map timestamp [earlyMessage, otherMessage, lateMessage])"
    by (simp add: earlyMessage_def otherMessage_def lateMessage_def)
  have e: "staticIds (emptyChat :: (unit, unit) chat) = {}"
    "staticEntries (emptyChat :: (unit, unit) chat) = []"
    by (simp_all add: emptyChat_def)
  have k: "sort_key (promotionKey [''B'', ''A'']) [earlyMessage, otherMessage, lateMessage] =
     [otherMessage, earlyMessage, lateMessage]"
    by (simp add: sort_key_def promotionKey_def earlyMessage_def otherMessage_def lateMessage_def)
  from promotion_order [of "{}" "[''B'', ''A'']" "[earlyMessage, otherMessage, lateMessage]"
      "emptyChat :: (unit, unit) chat"] s e demo_collect
  have "staticEntries (promoteCompleted {} [''B'', ''A''] [earlyMessage, otherMessage, lateMessage]
      (emptyChat :: (unit, unit) chat)) =
     map messageEntry
       (sort_key (promotionKey [''B'', ''A'']) [earlyMessage, otherMessage, lateMessage]) \<and>
   sorted_wrt (spec_dispatch_order [''B'', ''A''])
     (sort_key (promotionKey [''B'', ''A'']) [earlyMessage, otherMessage, lateMessage])"
    by simp
  with s k show ?thesis by blast
qed

section \<open>Promotion is idempotent\<close>

text \<open>
  C3. The entries of the static log that carry an id of the promoted-ids set are the same
  after any number of later promotion scans, over any message lists. One scan appends
  the entries of a batch of messages, each of them taken from the message list, of a
  terminal status (complete, sent or error), not referenced by an active stream and not
  promoted before; it adds their ids to the promoted-ids set; and for each of them the
  log holds exactly one more entry of its id, after this scan and after all later ones.
\<close>

theorem promotion_idempotent:
  "(mid \<in> staticIds st \<longrightarrow>
      filter (\<lambda>e. entry_id e = mid) (staticEntries (promoteAll scans st)) =
        filter (\<lambda>e. entry_id e = mid) (staticEntries st)) \<and>
   (\<exists>batch.
      staticEntries (promoteCompleted sids ord msgs st) = staticEntries st @ map messageEntry batch \<and>
      staticIds (promoteCompleted sids ord msgs st) = staticIds st \<union> message_id ` set batch \<and>
      (\<forall>m \<in> set batch.
         m \<in> set msgs \<and> isComplete m \<and> message_id m \<notin> sids \<and> message_id m \<notin> staticIds st \<and>
         filter (\<lambda>e. entry_id e = message_id m)
           (staticEntries (promoteAll scans (promoteCompleted sids ord msgs st))) =
         filter (\<lambda>e. entry_id e = message_id m) (staticEntries st) @ [messageEntry m]))"
proof -
  obtain ids new where c: "collectCompleted (staticIds st) sids msgs = (ids, new)"
    by (cases "collectCompleted (staticIds st) sids msgs")
  let ?batch = "sort_key (promotionKey ord) new"
  let ?st' = "promoteCompleted sids ord msgs st"
  note cp = collect_props [OF c]
  have entries: "staticEntries ?st' = staticEntries st @ map messageEntry ?batch"
    and ids: "staticIds ?st' = staticIds st \<union> message_id ` set ?batch"
    using c cp by (simp_all add: promote_entries)
  have dist: "distinct (map message_id ?batch)"
    using cp by (simp add: distinct_map)
  have each: "m \<in> set msgs \<and> isComplete m \<and> message_id m \<notin> sids \<and> message_id m \<notin> staticIds st \<and>
         filter (\<lambda>e. entry_id e = message_id m) (staticEntries (promoteAll scans ?st')) =
         filter (\<lambda>e. entry_id e = message_id m) (staticEntries st) @ [messageEntry m]"
    if m: "m \<in> set ?batch" for m
  proof -
    from m have mn: "m \<in> set new" by simp
    with cp have props: "m \<in> set msgs" "isComplete m" "message_id m \<notin> sids"
      "message_id m \<notin> staticIds st" by auto
    from m ids have "message_id m \<in> staticIds ?st'" by auto
    then have "filter (\<lambda>e. entry_id e = message_id m) (staticEntries (promoteAll scans ?st')) =
        filter (\<lambda>e. entry_id e = message_id m) (staticEntries ?st')"
      by (rule promoteAll_keeps)
    moreover have "filter (\<lambda>e. entry_id e = message_id m) (map messageEntry ?batch) = [messageEntry m]"
    proof -
      have "filter (\<lambda>e. entry_id e = message_id m) (map messageEntry ?batch) =
            map messageEntry (filter (\<lambda>y. message_id y = message_id m) ?batch)"
        by (simp add: filter_map comp_def messageEntry_def)
      with filter_unique [OF dist m] show ?thesis by simp
    qed
    ultimately show ?thesis using props entries by simp
  qed
  from promoteAll_keeps [of mid st scans] entries ids each show ?thesis by blast
qed

theorem promotion_idempotent_witness:
  "''m2'' \<in> staticIds (promoteCompleted {} [] [earlyMessage] (emptyChat :: (unit, unit) chat)) \<and>
   filter (\<lambda>e. entry_id e = ''m2'')
     (staticEntries (promoteCompleted {} [] [earlyMessage] (emptyChat :: (unit, unit) chat))) =
     [messageEntry earlyMessage] \<and>
   filter (\<lambda>e. entry_id e = ''m2'')
     (staticEntries
        (promoteAll [({}, [''A''], [earlyMessage, lateMessage]), ({}, [], [earlyMessage])]
           (promoteCompleted {} [] [earlyMessage] (emptyChat :: (unit, unit) chat)))) =
     [messageEntry earlyMessage]"
proof -
  let ?st = "promoteCompleted {} [] [earlyMessage] (emptyChat :: (unit, unit) chat)"
  have a: "''m2'' \<in> staticIds ?st"
    unfolding promoted_once by simp
  have b: "filter (\<lambda>e. entry_id e = ''m2'') (staticEntries ?st) = [messageEntry earlyMessage]"
    unfolding promoted_once by (simp add: messageEntry_def earlyMessage_def)
  from promotion_idempotent [of "''m2''" ?st
      "[({}, [''A''], [earlyMessage, lateMessage]), ({}, [], [earlyMessage])]"] a b
  have "filter (\<lambda>e. entry_id e = ''m2'')
     (staticEntries
        (promoteAll [({}, [''A''], [earlyMessage, lateMessage]), ({}, [], [earlyMessage])] ?st)) =
     [messageEntry earlyMessage]"
    by (simp del: promoteAll.simps)
  with a b show ?thesis by blast
qed

section \<open>Plan approval\<close>

text \<open>
  C6. While a plan approval is pending: on \<open>y\<close> (in either case) a plan entry marked
  approved is appended to the static log, the plan progress becomes the plan with
  \<open>completed = 0\<close> and no active agent, the original message is sent again with the
  orchestrator's analysis, and a status message is logged; on \<open>n\<close> a plan entry marked
  rejected is appended, the status message \<^verbatim>\<open>Plan rejected by user.\<close> is logged, the plan
  progress is cleared and nothing is sent; in both cases the pending plan approval is
  cleared and nothing else changes. Any other input changes nothing.
\<close>

theorem plan_approval:
  assumes "pendingPlanApproval st = Some a"
  shows
    "(toLowerCase input = ''y'' \<longrightarrow>
        onPlanApprovalInput now input st =
          st\<lparr>staticEntries := staticEntries st @
                [PlanEntry (''plan-'' @ show_nat now) (plan a) True],
             pendingPlanApproval := None,
             orchestratorMessages := orchestratorMessages st @
                [OrchestratorMessage ''status'' ''Plan approved. Executing...'' now],
             planProgress := Some (PlanProgress (plan a) 0 None),
             sentMessages := sentMessages st @
                [SendMessage (originalMessage a) None False (analysis a)]\<rparr>) \<and>
     (toLowerCase input = ''n'' \<longrightarrow>
        onPlanApprovalInput now input st =
          st\<lparr>staticEntries := staticEntries st @
                [PlanEntry (''plan-'' @ show_nat now) (plan a) False],
             pendingPlanApproval := None,
             orchestratorMessages := orchestratorMessages st @
                [OrchestratorMessage ''status'' ''Plan rejected by user.'' now],
             planProgress := None\<rparr>) \<and>
     (toLowerCase input \<noteq> ''y'' \<and> toLowerCase input \<noteq> ''n'' \<longrightarrow>
        onPlanApprovalInput now input st = st)"
  using assms by (simp add: onPlanApprovalInput_def Let_def)

theorem plan_approval_witness:
  "pendingPlanApproval awaitingPlan =
     Some \<lparr> plan = [''research'', ''write''], originalMessage = ''draft the report'',
            analysis = ''two steps'' \<rparr> \<and>
   toLowerCase ''Y'' = ''y'' \<and>
   staticEntries (onPlanApprovalInput 7 ''Y'' awaitingPlan) =
     [PlanEntry (''plan-'' @ show_nat 7) [''research'', ''write''] True] \<and>
   planProgress (onPlanApprovalInput 7 ''Y'' awaitingPlan) =
     Some (PlanProgress [''research'', ''write''] 0 None) \<and>
   sentMessages (onPlanApprovalInput 7 ''Y'' awaitingPlan) =
     [SendMessage ''draft the report'' None False ''two steps''] \<and>
   pendingPlanApproval (onPlanApprovalInput 7 ''Y'' awaitingPlan) = None \<and>
   toLowerCase ''n'' = ''n'' \<and>
   staticEntries (onPlanApprovalInput 7 ''n'' awaitingPlan) =
     [PlanEntry (''plan-'' @ show_nat 7) [''research'', ''write''] False] \<and>
   orchestratorMessages (onPlanApprovalInput 7 ''n'' awaitingPlan) =
     [OrchestratorMessage ''status'' ''Plan rejected by user.'' 7] \<and>
   planProgress (onPlanApprovalInput 7 ''n'' awaitingPlan) = None \<and>
   sentMessages (onPlanApprovalInput 7 ''n'' awaitingPlan) = [] \<and>
   pendingPlanApproval (onPlanApprovalInput 7 ''n'' awaitingPlan) = None"
proof -
  have p: "pendingPlanApproval awaitingPlan =
     Some \<lparr> plan = [''research'', ''write''], originalMessage = ''draft the report'',
            analysis = ''two steps'' \<rparr>"
    by (simp add: awaitingPlan_def)
  have f: "staticEntries awaitingPlan = []" "sentMessages awaitingPlan = []"
    "orchestratorMessages awaitingPlan = []"
    by (simp_all add: awaitingPlan_def emptyChat_def)
  from plan_approval [OF p, of "''Y''" 7] lower_Y
  have y: "onPlanApprovalInput 7 ''Y'' awaitingPlan =
          awaitingPlan\<lparr>staticEntries := staticEntries awaitingPlan @
                [PlanEntry (''plan-'' @ show_nat 7) [''research'', ''write''] True],
             pendingPlanApproval := None,
             orchestratorMessages := orchestratorMessages awaitingPlan @
                [OrchestratorMessage ''status'' ''Plan approved. Executing...'' 7],
             planProgress := Some (PlanProgress [''research'', ''write''] 0 None),
             sentMessages := sentMessages awaitingPlan @
                [SendMessage ''draft the report'' None False ''two steps'']\<rparr>"
    by simp
  from plan_approval [OF p, of "''n''" 7] lower_n
  have n: "onPlanApprovalInput 7 ''n'' awaitingPlan =
          awaitingPlan\<lparr>staticEntries := staticEntries awaitingPlan @
                [PlanEntry (''plan-'' @ show_nat 7) [''research'', ''write''] False],
             pendingPlanApproval := None,
             orchestratorMessages := orchestratorMessages awaitingPlan @
                [OrchestratorMessage ''status'' ''Plan rejected by user.'' 7],
             planProgress := None\<rparr>"
    by simp
  show ?thesis
    unfolding y n using p f lower_Y lower_n by simp
qed

end
